theory Spec2Isabelle
  imports Main
begin

section \<open>Python strings\<close>

text \<open>
  A Python \<open>str\<close> is a sequence of Unicode code points. \<open>U+FEFF\<close> does not fit into an
  8-bit \<^typ>\<open>char\<close>, so a string is modelled as the list of its code points.
  \<open>u\<close> turns an ASCII literal into such a list.
\<close>

type_synonym pystr = "nat list"

definition u :: "string \<Rightarrow> pystr" where
  "u s = map of_char s"

definition BOM :: nat where
  "BOM = 65279"

definition NL :: nat where
  "NL = 10"

text \<open>
  The code points for which \<open>str.isspace\<close> holds, the ones \<open>str.strip()\<close> removes:
  \<open>U+0009..U+000D\<close>, \<open>U+001C..U+0020\<close>, \<open>U+0085\<close>, \<open>U+00A0\<close>, \<open>U+1680\<close>,
  \<open>U+2000..U+200A\<close>, \<open>U+2028\<close>, \<open>U+2029\<close>, \<open>U+202F\<close>, \<open>U+205F\<close>, \<open>U+3000\<close>.
  \<open>U+FEFF\<close> is not among them.
\<close>

definition py_isspace :: "nat \<Rightarrow> bool" where
  "py_isspace c = (c \<in> set [9, 10, 11, 12, 13, 28, 29, 30, 31, 32, 133, 160, 5760,
      8192, 8193, 8194, 8195, 8196, 8197, 8198, 8199, 8200, 8201, 8202,
      8232, 8233, 8239, 8287, 12288])"

text \<open>
  \<open>str.strip\<close> removes from both ends the code points of a set: the whitespace when it
  is called without an argument, the code points of \<open>chars\<close> when called as
  \<open>s.strip(chars)\<close>. \<open>py_strip\<close> is that function for a set given by its predicate.
\<close>

definition py_strip :: "(nat \<Rightarrow> bool) \<Rightarrow> pystr \<Rightarrow> pystr" where
  "py_strip removed s = rev (dropWhile removed (rev (dropWhile removed s)))"

definition strip :: "pystr \<Rightarrow> pystr" where
  "strip s = py_strip py_isspace s"

definition strip_chars :: "pystr \<Rightarrow> pystr \<Rightarrow> pystr" where
  "strip_chars chars s = py_strip (\<lambda>c. c \<in> set chars) s"

text \<open>
  \<open>s.lower()\<close>, on the ASCII letters. The source only compares the lowered style name with
  the ASCII literals \<open>'heading 1'\<close> and \<open>'heading 2'\<close>; the one code point beyond ASCII that
  Python lowers to a single ASCII letter is \<open>U+212A\<close> (to \<open>k\<close>), which occurs in neither
  literal, so the comparisons come out as in Python.
\<close>

definition lower :: "pystr \<Rightarrow> pystr" where
  "lower s = map (\<lambda>c. if 65 \<le> c \<and> c \<le> 90 then c + 32 else c) s"

section \<open>clean_line\<close>

text \<open>
  \<^verbatim>\<open>
  def clean_line(line):
      line = line.strip()
      line = line.strip('\uFEFF')
      return line
  \<close>
\<close>

definition clean_line :: "pystr \<Rightarrow> pystr" where
  "clean_line line = strip_chars [BOM] (strip line)"

section \<open>read_faq\<close>

text \<open>
  A paragraph of the loaded document, as far as \<open>read_faq\<close> reads it: \<open>p.style.name\<close> and
  \<open>p.text\<close>.
\<close>

record docx_paragraph =
  style_name :: pystr
  par_text :: pystr

text \<open>The dictionary appended to \<open>questions\<close>, with its keys \<open>text\<close>, \<open>section\<close>, \<open>question\<close>.\<close>

record faq_entry =
  entry_text :: pystr
  entry_section :: pystr
  entry_question :: pystr

text \<open>The local variables of \<open>read_faq\<close> that the loop reads and assigns.\<close>

record parse_state =
  questions :: "faq_entry list"
  section_title :: pystr
  question_title :: pystr
  answer_text_so_far :: pystr

definition question_heading_style :: pystr where
  "question_heading_style = u ''heading 2''"

definition section_heading_style :: pystr where
  "section_heading_style = u ''heading 1''"

definition init_state :: parse_state where
  "init_state = \<lparr>questions = [], section_title = [], question_title = [],
     answer_text_so_far = []\<rparr>"

text \<open>
  The guard of both places that save an entry:
  \<^verbatim>\<open>answer_text_so_far.strip() and section_title and question_title\<close>.
\<close>

definition save_guard :: "parse_state \<Rightarrow> bool" where
  "save_guard st \<longleftrightarrow>
     strip (answer_text_so_far st) \<noteq> [] \<and> section_title st \<noteq> [] \<and> question_title st \<noteq> []"

definition new_entry :: "parse_state \<Rightarrow> faq_entry" where
  "new_entry st = \<lparr>entry_text = strip (answer_text_so_far st),
     entry_section = section_title st, entry_question = question_title st\<rparr>"

text \<open>
  One iteration of \<open>for p in doc.paragraphs\<close>. The assignment \<open>answer_text_so_far = ''\<close>
  stands inside the guarded block, after \<open>questions.append\<close>.
\<close>

definition loop_body :: "parse_state \<Rightarrow> docx_paragraph \<Rightarrow> parse_state" where
  "loop_body st p =
     (let style = lower (style_name p);
          p_text = clean_line (par_text p)
      in if p_text = [] then st
         else if style = section_heading_style then st\<lparr>section_title := p_text\<rparr>
         else if style = question_heading_style then
           (if save_guard st
            then st\<lparr>questions := questions st @ [new_entry st],
                    answer_text_so_far := [], question_title := p_text\<rparr>
            else st\<lparr>question_title := p_text\<rparr>)
         else st\<lparr>answer_text_so_far := answer_text_so_far st @ NL # p_text\<rparr>)"

fun paragraph_loop :: "parse_state \<Rightarrow> docx_paragraph list \<Rightarrow> parse_state" where
  "paragraph_loop st [] = st"
| "paragraph_loop st (p # ps) = paragraph_loop (loop_body st p) ps"

text \<open>The block after the loop (``Add the last question and answer to the list'').\<close>

definition last_save :: "parse_state \<Rightarrow> faq_entry list" where
  "last_save st = (if save_guard st then questions st @ [new_entry st] else questions st)"

text \<open>\<open>read_faq\<close> from the point where \<open>doc\<close> is loaded: the value it returns.\<close>

definition parse_paragraphs :: "docx_paragraph list \<Rightarrow> faq_entry list" where
  "parse_paragraphs ps = last_save (paragraph_loop init_state ps)"

text \<open>
  The download (\<open>requests.get\<close>, \<open>raise_for_status\<close>, \<open>docx.Document\<close>) is code outside the
  repository; it is a parameter that maps the URL to the paragraphs or to the exception
  raised. \<open>read_faq\<close> catches nothing.
\<close>

datatype fetch_error = RequestException | HTTPError | BadDocument

definition export_url :: "pystr \<Rightarrow> pystr" where
  "export_url file_id = u ''https://docs.google.com/document/d/'' @ file_id
     @ u ''/export?format=docx''"

definition read_faq ::
  "(pystr \<Rightarrow> fetch_error + docx_paragraph list) \<Rightarrow> pystr \<Rightarrow> fetch_error + faq_entry list" where
  "read_faq download file_id =
     (case download (export_url file_id) of
        Inl e \<Rightarrow> Inl e
      | Inr paragraphs \<Rightarrow> Inr (parse_paragraphs paragraphs))"

section \<open>The course loop\<close>

record course_bundle =
  course :: pystr
  documents :: "faq_entry list"

definition faq_documents :: "(pystr \<times> pystr) list" where
  "faq_documents =
     [(u ''data-engineering-zoomcamp'', u ''19bnYs80DwuUimHM65UV3sylsCn2j1vziPOwzBwQrebw''),
      (u ''machine-learning-zoomcamp'', u ''1LpPanc33QJJ6BSsyxVg-pWNMplal84TdZtq10naIhD8''),
      (u ''mlops-zoomcamp'', u ''12TlBfhIiKtyBv8RnsoJR6F72bkPDGEvPOItJIxaEzE0'')]"

text \<open>
  \<^verbatim>\<open>
  for course, file_id in faq_documents.items():
      course_documents = read_faq(file_id)
      documents.append({'course': course, 'documents': course_documents})
  \<close>
  There is no \<open>try\<close> around the call: an exception of \<open>read_faq\<close> ends the loop. The result
  is the list \<open>documents\<close> as it stands then, and the exception if one was raised.
\<close>

fun course_loop ::
  "(pystr \<Rightarrow> fetch_error + docx_paragraph list) \<Rightarrow> course_bundle list \<Rightarrow> (pystr \<times> pystr) list
     \<Rightarrow> course_bundle list \<times> fetch_error option" where
  "course_loop download docs [] = (docs, None)"
| "course_loop download docs ((course_name, file_id) # rest) =
     (case read_faq download file_id of
        Inl e \<Rightarrow> (docs, Some e)
      | Inr course_documents \<Rightarrow>
          course_loop download
            (docs @ [\<lparr>course = course_name, documents = course_documents\<rparr>]) rest)"

section \<open>Notions used in the statements\<close>

text \<open>A paragraph given by ASCII literals for its style name and its text.\<close>

definition para :: "string \<Rightarrow> string \<Rightarrow> docx_paragraph" where
  "para style_lit text_lit = \<lparr>style_name = u style_lit, par_text = u text_lit\<rparr>"

text \<open>\<open>'\n'.join(ts)\<close>: the texts joined by line breaks.\<close>

fun join_lines :: "pystr list \<Rightarrow> pystr" where
  "join_lines [] = []"
| "join_lines [t] = t"
| "join_lines (t # ts) = t @ NL # join_lines ts"

text \<open>
  The three kinds of paragraph the loop tells apart once the text is cleaned and not empty:
  the one that assigns \<open>section_title\<close>, the one that may save an entry and assigns
  \<open>question_title\<close>, and every other one, whose text is added to the answer.
\<close>

definition is_section_heading :: "docx_paragraph \<Rightarrow> bool" where
  "is_section_heading p \<longleftrightarrow> lower (style_name p) = section_heading_style"

definition is_question_heading :: "docx_paragraph \<Rightarrow> bool" where
  "is_question_heading p \<longleftrightarrow> lower (style_name p) = question_heading_style"

definition is_body :: "docx_paragraph \<Rightarrow> bool" where
  "is_body p \<longleftrightarrow> clean_line (par_text p) \<noteq> []
     \<and> \<not> is_section_heading p \<and> \<not> is_question_heading p"

definition body_texts :: "docx_paragraph list \<Rightarrow> pystr list" where
  "body_texts ps = map (\<lambda>p. clean_line (par_text p)) (filter is_body ps)"

text \<open>
  The entries one paragraph adds to \<open>questions\<close> when the loop meets it in state \<open>st\<close>,
  and the entries the block after the loop adds.
\<close>

definition saved_by :: "parse_state \<Rightarrow> docx_paragraph \<Rightarrow> faq_entry list" where
  "saved_by st p = drop (length (questions st)) (questions (loop_body st p))"

definition saved_at_end :: "parse_state \<Rightarrow> faq_entry list" where
  "saved_at_end st = drop (length (questions st)) (last_save st)"

text \<open>
  Re-expansion of entries into paragraphs, as the specification describes it: each entry
  becomes a section heading with its section, a question heading with its question and a
  paragraph of style \<open>body_style\<close> with its text, in this order.
\<close>

definition entry_blocks :: "pystr \<Rightarrow> faq_entry \<Rightarrow> docx_paragraph list" where
  "entry_blocks body_style e =
     [\<lparr>style_name = section_heading_style, par_text = entry_section e\<rparr>,
      \<lparr>style_name = question_heading_style, par_text = entry_question e\<rparr>,
      \<lparr>style_name = body_style, par_text = entry_text e\<rparr>]"

definition re_expand :: "pystr \<Rightarrow> faq_entry list \<Rightarrow> docx_paragraph list" where
  "re_expand body_style es = concat (map (entry_blocks body_style) es)"

text \<open>
  A download that raises for the document of the first course and delivers a document of one
  section, one question and one answer for every other URL.
\<close>

definition one_question_doc :: "docx_paragraph list" where
  "one_question_doc = [para ''Heading 1'' ''General'', para ''Heading 2'' ''Start date?'',
     para ''normal'' ''Jan 15.'']"

definition first_course_fails :: "pystr \<Rightarrow> fetch_error + docx_paragraph list" where
  "first_course_fails url =
     (if url = export_url (u ''19bnYs80DwuUimHM65UV3sylsCn2j1vziPOwzBwQrebw'')
      then Inl HTTPError else Inr one_question_doc)"

text \<open>An entry with three non-empty fields.\<close>

definition entry_filled :: "faq_entry \<Rightarrow> bool" where
  "entry_filled e \<longleftrightarrow>
     entry_section e \<noteq> [] \<and> entry_question e \<noteq> [] \<and> entry_text e \<noteq> []"

text \<open>A state in which both titles are set once an entry has been saved.\<close>

definition titled :: "parse_state \<Rightarrow> bool" where
  "titled st \<longleftrightarrow>
     (questions st \<noteq> [] \<longrightarrow> section_title st \<noteq> [] \<and> question_title st \<noteq> [])"

text \<open>Paragraph sequences and entries used as concrete inputs.\<close>

definition entry :: "string \<Rightarrow> string \<Rightarrow> string \<Rightarrow> faq_entry" where
  "entry s q t = \<lparr>entry_text = u t, entry_section = u s, entry_question = u q\<rparr>"

definition scenario_A :: "docx_paragraph list" where
  "scenario_A = [para ''Heading 1'' ''General'', para ''Heading 2'' ''Start date?'',
     para ''normal'' ''Course starts Jan 15.'', para ''Heading 2'' ''Where is Slack?'',
     para ''normal'' ''Link in announcements.'']"

definition preamble_doc :: "docx_paragraph list" where
  "preamble_doc = [para ''Heading 1'' ''S'', para ''normal'' ''pre'', para ''Heading 2'' ''Q1'',
     para ''normal'' ''A1'']"

definition two_sections_doc :: "docx_paragraph list" where
  "two_sections_doc = [para ''Heading 1'' ''A'', para ''Heading 2'' ''Q1'', para ''normal'' ''x'',
     para ''Heading 2'' ''Q2'', para ''Heading 1'' ''B'', para ''normal'' ''y'']"

text \<open>An entry that re-expansion reads back as it is, under the section \<open>s\<close>.\<close>

definition reads_back :: "pystr \<Rightarrow> faq_entry \<Rightarrow> bool" where
  "reads_back s e \<longleftrightarrow> entry_filled e \<and> entry_section e = s
     \<and> clean_line (entry_section e) = entry_section e
     \<and> clean_line (entry_question e) = entry_question e
     \<and> clean_line (entry_text e) = entry_text e
     \<and> strip (entry_text e) = entry_text e"

section \<open>Auxiliary lemmas\<close>

lemmas eval_defs = parse_paragraphs_def last_save_def save_guard_def new_entry_def
  loop_body_def init_state_def para_def clean_line_def strip_def strip_chars_def py_strip_def
  py_isspace_def u_def BOM_def NL_def lower_def section_heading_style_def
  question_heading_style_def

subsection \<open>Stripping\<close>

lemma rstrip_take:
  "rev (dropWhile P (rev ys)) = take (length ys - length (takeWhile P (rev ys))) ys"
  by (simp add: dropWhile_eq_drop rev_drop)

lemma dropWhile_keeps: "xs = [] \<or> \<not> P (hd xs) \<Longrightarrow> dropWhile P xs = xs"
  by (cases xs) auto

lemma take_Cons_hd: "take k ys = c # t \<Longrightarrow> ys \<noteq> [] \<and> hd ys = c"
  by (cases ys; cases k) auto

lemma py_strip_no_head: "py_strip P s = c # t \<Longrightarrow> \<not> P c"
proof -
  assume a: "py_strip P s = c # t"
  let ?ys = "dropWhile P s"
  have "py_strip P s = take (length ?ys - length (takeWhile P (rev ?ys))) ?ys"
    unfolding py_strip_def by (rule rstrip_take)
  with a have "?ys \<noteq> [] \<and> hd ?ys = c"
    by (intro take_Cons_hd) simp
  then show ?thesis using hd_dropWhile[of P s] by auto
qed

lemma py_strip_no_last: "py_strip P s = t @ [c] \<Longrightarrow> \<not> P c"
proof -
  assume "py_strip P s = t @ [c]"
  then have "dropWhile P (rev (dropWhile P s)) = c # rev t"
    by (simp add: py_strip_def rev_swap)
  then show ?thesis using hd_dropWhile[of P "rev (dropWhile P s)"] by auto
qed

lemma py_strip_Nil [simp]: "py_strip P [] = []"
  by (simp add: py_strip_def)

lemma py_strip_fixed:
  assumes "s = [] \<or> (\<not> P (hd s) \<and> \<not> P (last s))"
  shows "py_strip P s = s"
proof -
  have 1: "dropWhile P s = s" using assms by (intro dropWhile_keeps) auto
  have 2: "dropWhile P (rev s) = rev s" using assms by (intro dropWhile_keeps) (auto simp: hd_rev)
  show ?thesis by (simp add: py_strip_def 1 2)
qed

lemma py_strip_ends:
  "py_strip P s = [] \<or> (\<not> P (hd (py_strip P s)) \<and> \<not> P (last (py_strip P s)))"
proof (cases "py_strip P s")
  case Nil then show ?thesis by simp
next
  case (Cons c t)
  then have "\<not> P (hd (py_strip P s))" using py_strip_no_head[of P s c t] by simp
  moreover have "\<not> P (last (py_strip P s))"
    using py_strip_no_last[of P s "butlast (py_strip P s)" "last (py_strip P s)"] Cons by simp
  ultimately show ?thesis by simp
qed

lemma py_strip_idem: "py_strip P (py_strip P s) = py_strip P s"
  using py_strip_ends[of P s] by (intro py_strip_fixed) simp

lemma py_strip_drop_head: "P c \<Longrightarrow> py_strip P (c # s) = py_strip P s"
  by (simp add: py_strip_def)

lemma strip_idem: "strip (strip s) = strip s"
  by (simp add: strip_def py_strip_idem)

lemma strip_NL: "strip (NL # s) = strip s"
  by (simp add: strip_def py_strip_drop_head py_isspace_def NL_def)

lemma strip_Nil [simp]: "strip [] = []"
  by (simp add: strip_def)

lemma BOM_not_space: "\<not> py_isspace BOM"
  by (simp add: py_isspace_def BOM_def)

lemma join_lines_concat:
  "concat (map ((#) NL) ts) = (if ts = [] then [] else NL # join_lines ts)"
  by (induction ts rule: join_lines.induct) auto

lemma strip_joined: "strip (concat (map ((#) NL) ts)) = strip (join_lines ts)"
  by (simp add: join_lines_concat strip_NL)

text \<open>
  What \<open>clean_line\<close> returns: the whitespace-stripped line without the byte-order marks at
  its two ends, and nothing else removed.
\<close>

lemma rev_dropWhile_takeWhile: "rev (dropWhile P zs) @ rev (takeWhile P zs) = rev zs"
  by (metis rev_append takeWhile_dropWhile_id)

lemma py_strip_decomposition:
  "s = takeWhile P s @ py_strip P s @ rev (takeWhile P (rev (dropWhile P s)))"
proof -
  have "py_strip P s @ rev (takeWhile P (rev (dropWhile P s))) = dropWhile P s"
    unfolding py_strip_def using rev_dropWhile_takeWhile[of P "rev (dropWhile P s)"]
    by (simp only: rev_rev_ident)
  then show ?thesis by simp
qed

lemma clean_line_decomposition:
  "strip s = takeWhile (\<lambda>c. c = BOM) (strip s) @ clean_line s
     @ rev (takeWhile (\<lambda>c. c = BOM) (rev (dropWhile (\<lambda>c. c = BOM) (strip s))))"
  using py_strip_decomposition[of "strip s" "\<lambda>c. c = BOM"]
  by (simp add: clean_line_def strip_chars_def)

lemma clean_line_no_bom_ends: "clean_line s \<noteq> BOM # t \<and> clean_line s \<noteq> t @ [BOM]"
  using py_strip_no_head[of "\<lambda>c. c \<in> set [BOM]" "strip s" BOM t]
    py_strip_no_last[of "\<lambda>c. c \<in> set [BOM]" "strip s" t BOM]
  by (auto simp: clean_line_def strip_chars_def)

subsection \<open>One iteration, by the kind of paragraph\<close>

lemma styles_differ: "section_heading_style \<noteq> question_heading_style"
  by (simp add: section_heading_style_def question_heading_style_def u_def)

lemma lower_heading_styles:
  "lower section_heading_style = section_heading_style"
  "lower question_heading_style = question_heading_style"
  by (simp_all add: section_heading_style_def question_heading_style_def u_def lower_def)

lemma loop_body_blank: "clean_line (par_text p) = [] \<Longrightarrow> loop_body st p = st"
  by (simp add: loop_body_def)

lemma loop_body_section:
  "clean_line (par_text p) \<noteq> [] \<Longrightarrow> is_section_heading p \<Longrightarrow>
     loop_body st p = st\<lparr>section_title := clean_line (par_text p)\<rparr>"
  by (simp add: loop_body_def is_section_heading_def)

lemma loop_body_question:
  "clean_line (par_text p) \<noteq> [] \<Longrightarrow> is_question_heading p \<Longrightarrow>
     loop_body st p =
       (if save_guard st
        then st\<lparr>questions := questions st @ [new_entry st], answer_text_so_far := [],
                question_title := clean_line (par_text p)\<rparr>
        else st\<lparr>question_title := clean_line (par_text p)\<rparr>)"
  using styles_differ by (simp add: loop_body_def is_question_heading_def)

lemma loop_body_body:
  "is_body p \<Longrightarrow>
     loop_body st p =
       st\<lparr>answer_text_so_far := answer_text_so_far st @ NL # clean_line (par_text p)\<rparr>"
  by (simp add: loop_body_def is_body_def is_section_heading_def is_question_heading_def)

lemma paragraph_kinds:
  obtains (blank) "clean_line (par_text p) = []"
  | (sec) "clean_line (par_text p) \<noteq> []" "is_section_heading p"
  | (quest) "clean_line (par_text p) \<noteq> []" "is_question_heading p"
  | (body) "is_body p"
  using is_body_def by blast

lemma question_not_body: "is_question_heading p \<Longrightarrow> \<not> is_body p"
  by (simp add: is_body_def)

lemma loop_append:
  "paragraph_loop st (xs @ ys) = paragraph_loop (paragraph_loop st xs) ys"
  by (induction xs arbitrary: st) auto

lemma loop_snoc: "paragraph_loop st (xs @ [p]) = loop_body (paragraph_loop st xs) p"
  by (simp add: loop_append)

subsection \<open>What an iteration saves\<close>

lemma saved_by_cases:
  "saved_by st p =
     (if clean_line (par_text p) \<noteq> [] \<and> is_question_heading p \<and> save_guard st
      then [new_entry st] else [])"
proof (cases p rule: paragraph_kinds)
  case blank then show ?thesis by (simp add: saved_by_def loop_body_blank)
next
  case sec
  then have "\<not> is_question_heading p"
    using styles_differ by (auto simp: is_section_heading_def is_question_heading_def)
  with sec show ?thesis by (simp add: saved_by_def loop_body_section)
next
  case quest then show ?thesis by (simp add: saved_by_def loop_body_question)
next
  case body then show ?thesis by (simp add: saved_by_def loop_body_body is_body_def)
qed

lemma questions_loop_body: "questions (loop_body st p) = questions st @ saved_by st p"
proof (cases p rule: paragraph_kinds)
  case blank then show ?thesis by (simp add: saved_by_def loop_body_blank)
next
  case sec then show ?thesis by (simp add: saved_by_def loop_body_section)
next
  case quest then show ?thesis by (simp add: saved_by_def loop_body_question)
next
  case body then show ?thesis by (simp add: saved_by_def loop_body_body)
qed

lemma last_save_questions: "last_save st = questions st @ saved_at_end st"
  by (simp add: saved_at_end_def last_save_def)

lemma saved_at_end_cases: "saved_at_end st = (if save_guard st then [new_entry st] else [])"
  by (simp add: saved_at_end_def last_save_def)

lemma questions_loop_grow: "\<exists>zs. questions (paragraph_loop st ps) = questions st @ zs"
proof (induction ps arbitrary: st)
  case Nil show ?case by simp
next
  case (Cons p ps)
  from Cons[of "loop_body st p"] show ?case by (auto simp: questions_loop_body)
qed

subsection \<open>Invariants of the loop\<close>

text \<open>Counting: the entries saved so far, plus one for an open question.\<close>

lemma count_loop_body:
  assumes "length (questions st) + (if question_title st = [] then 0 else 1) \<le> n"
  shows "length (questions (loop_body st p))
           + (if question_title (loop_body st p) = [] then 0 else 1)
         \<le> n + (if is_question_heading p then 1 else 0)"
proof (cases p rule: paragraph_kinds)
  case blank with assms show ?thesis by (simp add: loop_body_blank)
next
  case sec with assms show ?thesis by (simp add: loop_body_section)
next
  case quest with assms show ?thesis
    by (auto simp: loop_body_question save_guard_def)
next
  case body with assms show ?thesis by (simp add: loop_body_body)
qed

lemma count_loop:
  assumes "length (questions st) + (if question_title st = [] then 0 else 1) \<le> n"
  shows "length (questions (paragraph_loop st ps))
           + (if question_title (paragraph_loop st ps) = [] then 0 else 1)
         \<le> n + length (filter is_question_heading ps)"
  using assms
proof (induction ps arbitrary: st n)
  case Nil then show ?case by simp
next
  case (Cons p ps)
  from Cons.IH[OF count_loop_body[OF Cons.prems, of p]] show ?case
    by (simp split: if_splits)
qed

lemma length_last_save:
  "length (last_save st) \<le> length (questions st) + (if question_title st = [] then 0 else 1)"
  by (simp add: last_save_def save_guard_def)

text \<open>Every saved entry has three non-empty fields.\<close>

lemma new_entry_filled: "save_guard st \<Longrightarrow> entry_filled (new_entry st)"
  by (simp add: entry_filled_def new_entry_def save_guard_def)

lemma filled_loop_body:
  "list_all entry_filled (questions st) \<Longrightarrow> list_all entry_filled (questions (loop_body st p))"
  by (simp add: questions_loop_body saved_by_cases new_entry_filled)

lemma filled_loop:
  "list_all entry_filled (questions st) \<Longrightarrow>
     list_all entry_filled (questions (paragraph_loop st ps))"
  by (induction ps arbitrary: st) (auto simp: filled_loop_body)

lemma filled_parse: "list_all entry_filled (parse_paragraphs ps)"
proof -
  have "list_all entry_filled (questions (paragraph_loop init_state ps))"
    by (rule filled_loop) (simp add: init_state_def)
  then show ?thesis
    by (simp add: parse_paragraphs_def last_save_def new_entry_filled)
qed

text \<open>The titles stay non-empty once set; after the first save both are set.\<close>

lemma section_title_loop_body:
  "section_title st \<noteq> [] \<Longrightarrow> section_title (loop_body st p) \<noteq> []"
  by (cases p rule: paragraph_kinds)
    (simp_all add: loop_body_blank loop_body_section loop_body_question loop_body_body)

lemma question_title_loop_body:
  "question_title st \<noteq> [] \<Longrightarrow> question_title (loop_body st p) \<noteq> []"
  by (cases p rule: paragraph_kinds)
    (simp_all add: loop_body_blank loop_body_section loop_body_question loop_body_body)

lemma section_title_loop:
  "section_title st \<noteq> [] \<Longrightarrow> section_title (paragraph_loop st ps) \<noteq> []"
  by (induction ps arbitrary: st) (auto simp: section_title_loop_body)

lemma question_title_loop:
  "question_title st \<noteq> [] \<Longrightarrow> question_title (paragraph_loop st ps) \<noteq> []"
  by (induction ps arbitrary: st) (auto simp: question_title_loop_body)

lemma titles_assigned:
  "(section_title (loop_body st p) = section_title st
      \<or> section_title (loop_body st p) = clean_line (par_text p) \<and> clean_line (par_text p) \<noteq> [])
   \<and> (question_title (loop_body st p) = question_title st
      \<or> question_title (loop_body st p) = clean_line (par_text p) \<and> clean_line (par_text p) \<noteq> [])"
  by (cases p rule: paragraph_kinds)
    (simp_all add: loop_body_blank loop_body_section loop_body_question loop_body_body)

lemma titled_loop_body: "titled st \<Longrightarrow> titled (loop_body st p)"
  by (cases p rule: paragraph_kinds)
    (auto simp: titled_def loop_body_blank loop_body_section loop_body_question loop_body_body
       save_guard_def)

lemma titled_loop: "titled st \<Longrightarrow> titled (paragraph_loop st ps)"
  by (induction ps arbitrary: st) (auto simp: titled_loop_body)

lemma titled_init: "titled init_state"
  by (simp add: titled_def init_state_def)

text \<open>The answer text while nothing is saved.\<close>

lemma answer_loop_body:
  "saved_by st p = [] \<Longrightarrow>
     answer_text_so_far (loop_body st p) =
       answer_text_so_far st @ concat (map ((#) NL) (body_texts [p]))"
proof (cases p rule: paragraph_kinds)
  case blank then show ?thesis by (simp add: loop_body_blank body_texts_def is_body_def)
next
  case sec then show ?thesis by (simp add: loop_body_section body_texts_def is_body_def)
next
  case quest
  assume "saved_by st p = []"
  with quest have "\<not> save_guard st" by (auto simp: saved_by_cases split: if_splits)
  with quest show ?thesis by (simp add: loop_body_question body_texts_def is_body_def)
next
  case body then show ?thesis by (simp add: loop_body_body body_texts_def)
qed

lemma body_texts_Cons: "body_texts (p # ps) = body_texts [p] @ body_texts ps"
  by (simp add: body_texts_def)

lemma answer_loop:
  "questions (paragraph_loop st ps) = questions st \<Longrightarrow>
     answer_text_so_far (paragraph_loop st ps) =
       answer_text_so_far st @ concat (map ((#) NL) (body_texts ps))"
proof (induction ps arbitrary: st)
  case Nil then show ?case by (simp add: body_texts_def)
next
  case (Cons p ps)
  obtain zs where zs: "questions (paragraph_loop (loop_body st p) ps) = questions (loop_body st p) @ zs"
    using questions_loop_grow by blast
  with Cons.prems have "questions st @ saved_by st p @ zs = questions st"
    by (simp add: questions_loop_body)
  then have none: "saved_by st p = []" and "zs = []" by simp_all
  with zs have "questions (paragraph_loop (loop_body st p) ps) = questions (loop_body st p)" by simp
  from Cons.IH[OF this] answer_loop_body[OF none] show ?case
    by (simp add: body_texts_Cons[of p ps])
qed

text \<open>The saved entries, paragraph by paragraph.\<close>

lemma questions_loop_concat:
  "questions (paragraph_loop st ps) =
     questions st @ concat (map (\<lambda>i. saved_by (paragraph_loop st (take i ps)) (ps ! i))
       [0..<length ps])"
proof (induction ps rule: rev_induct)
  case Nil show ?case by simp
next
  case (snoc p ps)
  define F where "F = (\<lambda>i. saved_by (paragraph_loop st (take i (ps @ [p]))) ((ps @ [p]) ! i))"
  define G where "G = (\<lambda>i. saved_by (paragraph_loop st (take i ps)) (ps ! i))"
  have old: "map F [0..<length ps] = map G [0..<length ps]"
    unfolding F_def G_def by (rule map_cong) (auto simp: nth_append)
  have new: "F (length ps) = saved_by (paragraph_loop st ps) p"
    unfolding F_def by simp
  have "map F [0..<length (ps @ [p])] = map F [0..<length ps] @ [F (length ps)]"
    by simp
  also have "\<dots> = map G [0..<length ps] @ [saved_by (paragraph_loop st ps) p]"
    by (simp only: old new)
  finally have m: "map F [0..<length (ps @ [p])]
      = map G [0..<length ps] @ [saved_by (paragraph_loop st ps) p]" .
  have "concat (map F [0..<length (ps @ [p])])
      = concat (map G [0..<length ps]) @ saved_by (paragraph_loop st ps) p"
    unfolding m by simp
  moreover have "questions (paragraph_loop st (ps @ [p]))
      = questions (paragraph_loop st ps) @ saved_by (paragraph_loop st ps) p"
    by (simp add: loop_snoc questions_loop_body)
  moreover have "questions (paragraph_loop st ps) = questions st @ concat (map G [0..<length ps])"
    using snoc unfolding G_def .
  ultimately have "questions (paragraph_loop st (ps @ [p]))
      = questions st @ concat (map F [0..<length (ps @ [p])])"
    by simp
  then show ?case unfolding F_def .
qed

lemmas heading_defs = is_question_heading_def is_section_heading_def is_body_def

subsection \<open>Re-expansion\<close>

lemma stripped_loop_body:
  "list_all (\<lambda>e. strip (entry_text e) = entry_text e) (questions st) \<Longrightarrow>
     list_all (\<lambda>e. strip (entry_text e) = entry_text e) (questions (loop_body st p))"
  by (simp add: questions_loop_body saved_by_cases new_entry_def strip_idem)

lemma stripped_loop:
  "list_all (\<lambda>e. strip (entry_text e) = entry_text e) (questions st) \<Longrightarrow>
     list_all (\<lambda>e. strip (entry_text e) = entry_text e) (questions (paragraph_loop st ps))"
  by (induction ps arbitrary: st) (auto simp: stripped_loop_body)

lemma stripped_parse: "list_all (\<lambda>e. strip (entry_text e) = entry_text e) (parse_paragraphs ps)"
proof -
  have "list_all (\<lambda>e. strip (entry_text e) = entry_text e) (questions (paragraph_loop init_state ps))"
    by (rule stripped_loop) (simp add: init_state_def)
  then show ?thesis
    by (simp add: parse_paragraphs_def last_save_def new_entry_def strip_idem)
qed

lemma loop_entry_blocks:
  assumes b: "lower body_style \<noteq> section_heading_style" "lower body_style \<noteq> question_heading_style"
    and e: "reads_back s e"
  shows "paragraph_loop st (entry_blocks body_style e) =
     (if save_guard (st\<lparr>section_title := s\<rparr>)
      then st\<lparr>section_title := s,
              questions := questions st @ [new_entry (st\<lparr>section_title := s\<rparr>)],
              answer_text_so_far := NL # entry_text e, question_title := entry_question e\<rparr>
      else st\<lparr>section_title := s, question_title := entry_question e,
              answer_text_so_far := answer_text_so_far st @ NL # entry_text e\<rparr>)"
proof -
  let ?p1 = "\<lparr>style_name = section_heading_style, par_text = entry_section e\<rparr>"
  let ?p2 = "\<lparr>style_name = question_heading_style, par_text = entry_question e\<rparr>"
  let ?p3 = "\<lparr>style_name = body_style, par_text = entry_text e\<rparr>"
  from e have ne: "entry_section e \<noteq> []" "entry_question e \<noteq> []" "entry_text e \<noteq> []"
    and cl: "clean_line (entry_section e) = entry_section e"
      "clean_line (entry_question e) = entry_question e" "clean_line (entry_text e) = entry_text e"
    and s: "entry_section e = s"
    by (auto simp: reads_back_def entry_filled_def)
  have 1: "loop_body st ?p1 = st\<lparr>section_title := s\<rparr>"
    using loop_body_section[of ?p1 st] ne cl s
    by (simp add: is_section_heading_def lower_heading_styles)
  have 2: "loop_body st' ?p2 =
       (if save_guard st'
        then st'\<lparr>questions := questions st' @ [new_entry st'], answer_text_so_far := [],
                question_title := entry_question e\<rparr>
        else st'\<lparr>question_title := entry_question e\<rparr>)" for st'
    using loop_body_question[of ?p2 st'] ne cl
    by (simp add: is_question_heading_def lower_heading_styles)
  have 3: "loop_body st' ?p3 =
       st'\<lparr>answer_text_so_far := answer_text_so_far st' @ NL # entry_text e\<rparr>" for st'
    using loop_body_body[of ?p3 st'] ne cl b
    by (simp add: is_body_def is_section_heading_def is_question_heading_def)
  show ?thesis
    by (simp add: entry_blocks_def 1 2 3)
qed

lemma expand_pending:
  assumes b: "lower body_style \<noteq> section_heading_style" "lower body_style \<noteq> question_heading_style"
  shows "list_all (reads_back s) es \<Longrightarrow> save_guard st \<Longrightarrow> section_title st = s \<Longrightarrow>
     last_save (paragraph_loop st (re_expand body_style es)) = last_save st @ es"
proof (induction es arbitrary: st)
  case Nil then show ?case by (simp add: re_expand_def)
next
  case (Cons e es)
  let ?st' = "paragraph_loop st (entry_blocks body_style e)"
  from Cons.prems have e: "reads_back s e" and es: "list_all (reads_back s) es" by simp_all
  from Cons.prems have same: "st\<lparr>section_title := s\<rparr> = st" by auto
  have st': "?st' = st\<lparr>questions := questions st @ [new_entry st],
       answer_text_so_far := NL # entry_text e, question_title := entry_question e\<rparr>"
    using loop_entry_blocks[OF b e, of st] Cons.prems(2) by (simp add: same)
  from e have stripped: "strip (NL # entry_text e) = entry_text e"
    by (simp add: strip_NL reads_back_def)
  from e Cons.prems(3) have g: "save_guard ?st'"
    by (auto simp: st' save_guard_def stripped reads_back_def entry_filled_def)
  from e Cons.prems(3) have n: "new_entry ?st' = e"
    by (simp add: st' new_entry_def stripped reads_back_def)
  have s': "section_title ?st' = s" using Cons.prems(3) by (simp add: st')
  have "last_save (paragraph_loop st (re_expand body_style (e # es))) =
      last_save (paragraph_loop ?st' (re_expand body_style es))"
    by (simp add: re_expand_def loop_append)
  also have "\<dots> = last_save ?st' @ es" by (rule Cons.IH[OF es g s'])
  also have "last_save ?st' = questions ?st' @ [e]" using g n by (simp add: last_save_def)
  also have "questions ?st' = last_save st" using Cons.prems(2) by (simp add: st' last_save_def)
  finally show ?case by simp
qed

lemma expand_init:
  assumes b: "lower body_style \<noteq> section_heading_style" "lower body_style \<noteq> question_heading_style"
    and es: "list_all (reads_back s) es"
  shows "parse_paragraphs (re_expand body_style es) = es"
proof (cases es)
  case Nil then show ?thesis
    by (simp add: re_expand_def parse_paragraphs_def last_save_def save_guard_def init_state_def)
next
  case (Cons e es')
  let ?st' = "paragraph_loop init_state (entry_blocks body_style e)"
  from es Cons have e: "reads_back s e" and es': "list_all (reads_back s) es'" by simp_all
  have ng: "\<not> save_guard (init_state\<lparr>section_title := s\<rparr>)"
    by (simp add: save_guard_def init_state_def)
  have st': "?st' = \<lparr>questions = [], section_title = s, question_title = entry_question e,
       answer_text_so_far = NL # entry_text e\<rparr>"
    using loop_entry_blocks[OF b e, of init_state] ng by (simp add: init_state_def)
  from e have stripped: "strip (NL # entry_text e) = entry_text e"
    by (simp add: strip_NL reads_back_def)
  from e have g: "save_guard ?st'"
    by (auto simp: st' save_guard_def stripped reads_back_def entry_filled_def)
  from e have n: "new_entry ?st' = e"
    by (simp add: st' new_entry_def stripped reads_back_def)
  have s': "section_title ?st' = s" by (simp add: st')
  have "parse_paragraphs (re_expand body_style es) =
      last_save (paragraph_loop ?st' (re_expand body_style es'))"
    by (simp add: Cons parse_paragraphs_def re_expand_def loop_append)
  also have "\<dots> = last_save ?st' @ es'" by (rule expand_pending[OF b es' g s'])
  also have "last_save ?st' = [e]" using g n by (simp add: last_save_def st')
  finally show ?thesis by (simp add: Cons)
qed

subsection \<open>The course loop\<close>

lemma course_loop_all:
  "\<forall>(c, f) \<in> set m. download (export_url f) = Inr (doc f) \<Longrightarrow>
     course_loop download docs m =
       (docs @ map (\<lambda>(c, f). \<lparr>course = c, documents = parse_paragraphs (doc f)\<rparr>) m, None)"
  by (induction m arbitrary: docs) (auto simp: read_faq_def)

lemma course_loop_stop:
  "\<forall>(c, f) \<in> set pre. download (export_url f) = Inr (doc f) \<Longrightarrow>
   download (export_url file_id) = Inl err \<Longrightarrow>
     course_loop download docs (pre @ (course_name, file_id) # post) =
       (docs @ map (\<lambda>(c, f). \<lparr>course = c, documents = parse_paragraphs (doc f)\<rparr>) pre, Some err)"
  by (induction pre arbitrary: docs) (auto simp: read_faq_def)

section \<open>Claims\<close>

subsection \<open>C1: the answer text after a question heading\<close>

text \<open>
  C1, counterexample. The claim says that \<open>answer_text_so_far\<close> is empty after every
  question heading with a non-empty cleaned text, whether or not an entry was saved there.
  The assignment \<open>answer_text_so_far = ''\<close> is inside the guarded block: after a body
  paragraph \<open>pre\<close> and the first question heading, where the guard fails because no question
  is open, the answer text is still the line break and \<open>pre\<close>.
\<close>

theorem answer_kept_without_save:
  "clean_line (par_text (para ''Heading 2'' ''Q1'')) \<noteq> []
   \<and> is_question_heading (para ''Heading 2'' ''Q1'')
   \<and> answer_text_so_far (paragraph_loop init_state [para ''normal'' ''pre'', para ''Heading 2'' ''Q1''])
       = NL # u ''pre''"
  by (simp add: heading_defs eval_defs)

text \<open>
  C1, as amended. For every paragraph sequence \<open>xs\<close>, after the loop has processed a
  further paragraph whose lowered style is the question heading style and whose cleaned
  text is not empty, \<open>answer_text_so_far\<close> is empty if that paragraph saved an entry and is
  what it was before otherwise; \<open>question_title\<close> is the cleaned text in both cases.
\<close>

theorem answer_reset_on_save:
  "clean_line (par_text q) \<noteq> [] \<and> is_question_heading q \<longrightarrow>
     answer_text_so_far (paragraph_loop init_state (xs @ [q])) =
       (if saved_by (paragraph_loop init_state xs) q = []
        then answer_text_so_far (paragraph_loop init_state xs) else [])
     \<and> question_title (paragraph_loop init_state (xs @ [q])) = clean_line (par_text q)"
  by (simp add: loop_snoc loop_body_question saved_by_cases)

theorem answer_reset_on_save_witness:
  "clean_line (par_text (scenario_A ! 3)) \<noteq> [] \<and> is_question_heading (scenario_A ! 3)
   \<and> saved_by (paragraph_loop init_state (take 3 scenario_A)) (scenario_A ! 3) \<noteq> []
   \<and> answer_text_so_far (paragraph_loop init_state (take 3 scenario_A @ [scenario_A ! 3])) = []
   \<and> question_title (paragraph_loop init_state (take 3 scenario_A @ [scenario_A ! 3]))
       = u ''Where is Slack?''"
proof -
  have h: "clean_line (par_text (scenario_A ! 3)) \<noteq> [] \<and> is_question_heading (scenario_A ! 3)"
    by (simp add: scenario_A_def heading_defs eval_defs)
  have s: "saved_by (paragraph_loop init_state (take 3 scenario_A)) (scenario_A ! 3) \<noteq> []"
    by (simp add: scenario_A_def saved_by_def eval_defs)
  have c: "clean_line (par_text (scenario_A ! 3)) = u ''Where is Slack?''"
    by (simp add: scenario_A_def eval_defs)
  from answer_reset_on_save[of "scenario_A ! 3" "take 3 scenario_A"] h s c
  show ?thesis by simp
qed

subsection \<open>C2: the text of an entry\<close>

text \<open>
  C2, counterexample. The claim says that body text before the first question heading is in
  no entry. For a section heading \<open>S\<close>, a body paragraph \<open>pre\<close>, a question heading
  \<open>Q1\<close> and a body paragraph \<open>A1\<close>, the one entry returned has the text \<open>pre\<close>, line
  break, \<open>A1\<close>.
\<close>

theorem preamble_in_first_entry:
  "parse_paragraphs preamble_doc
     = [\<lparr>entry_text = u ''pre'' @ NL # u ''A1'', entry_section = u ''S'',
         entry_question = u ''Q1''\<rparr>]
   \<and> u ''pre'' @ NL # u ''A1'' \<noteq> u ''A1''"
  by (simp add: preamble_doc_def eval_defs)

text \<open>
  C2, as amended. Let \<open>ys\<close> be a stretch of paragraphs that begins at the start of the input
  or right after a paragraph that saved an entry (\<open>xs\<close> is what precedes it), and in which
  no entry is saved. An entry saved at the end of the stretch, by a next paragraph \<open>q\<close> or
  by the block after the loop, has as text the cleaned texts of all body paragraphs of
  \<open>ys\<close>, joined by line breaks and stripped of surrounding whitespace. Body text before the
  first question heading is thus part of the first entry saved.
\<close>

theorem entry_text_since_last_save:
  assumes "xs = [] \<or> saved_by (paragraph_loop init_state (butlast xs)) (last xs) \<noteq> []"
    and "questions (paragraph_loop init_state (xs @ ys)) = questions (paragraph_loop init_state xs)"
    and "e \<in> set (saved_by (paragraph_loop init_state (xs @ ys)) q)
       \<or> e \<in> set (saved_at_end (paragraph_loop init_state (xs @ ys)))"
  shows "entry_text e = strip (join_lines (body_texts ys))"
proof -
  let ?st = "paragraph_loop init_state xs"
  have empty: "answer_text_so_far ?st = []"
  proof (cases "xs = []")
    case True then show ?thesis by (simp add: init_state_def)
  next
    case False
    with assms(1) have s: "saved_by (paragraph_loop init_state (butlast xs)) (last xs) \<noteq> []"
      by simp
    from False have "?st = loop_body (paragraph_loop init_state (butlast xs)) (last xs)"
      using loop_snoc[of init_state "butlast xs" "last xs"] by simp
    with s show ?thesis
      by (auto simp: saved_by_cases loop_body_question split: if_splits)
  qed
  from assms(2) have "answer_text_so_far (paragraph_loop ?st ys) =
      answer_text_so_far ?st @ concat (map ((#) NL) (body_texts ys))"
    by (intro answer_loop) (simp add: loop_append)
  with empty have "strip (answer_text_so_far (paragraph_loop init_state (xs @ ys))) =
      strip (join_lines (body_texts ys))"
    by (simp add: loop_append strip_joined)
  moreover from assms(3) have "e = new_entry (paragraph_loop init_state (xs @ ys))"
    by (auto simp: saved_by_cases saved_at_end_cases split: if_splits)
  ultimately show ?thesis by (simp add: new_entry_def)
qed

theorem entry_text_since_last_save_witness:
  "questions (paragraph_loop init_state ([] @ preamble_doc)) = questions (paragraph_loop init_state [])
   \<and> entry ''S'' ''Q1'' ''pre\<newline>A1'' \<in> set (saved_at_end (paragraph_loop init_state ([] @ preamble_doc)))
   \<and> body_texts preamble_doc = [u ''pre'', u ''A1'']
   \<and> entry_text (entry ''S'' ''Q1'' ''pre\<newline>A1'') = strip (join_lines (body_texts preamble_doc))"
proof -
  have 1: "questions (paragraph_loop init_state ([] @ preamble_doc)) = questions (paragraph_loop init_state [])"
    by (simp add: preamble_doc_def eval_defs)
  have 2: "entry ''S'' ''Q1'' ''pre\<newline>A1'' \<in> set (saved_at_end (paragraph_loop init_state ([] @ preamble_doc)))"
    by (simp add: preamble_doc_def entry_def saved_at_end_def eval_defs)
  have 3: "body_texts preamble_doc = [u ''pre'', u ''A1'']"
    by (simp add: preamble_doc_def body_texts_def heading_defs eval_defs)
  from entry_text_since_last_save[of "[]" preamble_doc "entry ''S'' ''Q1'' ''pre\<newline>A1''" "para ''Heading 2'' ''Q''"] 1 2
  have "entry_text (entry ''S'' ''Q1'' ''pre\<newline>A1'') = strip (join_lines (body_texts preamble_doc))"
    by blast
  with 1 2 3 show ?thesis by simp
qed

subsection \<open>C3: when an entry is saved\<close>

text \<open>
  C3. An entry is saved at the two places the source saves one: by a paragraph that
  reaches the question heading branch (its lowered style is the question heading style and
  its cleaned text is not empty; a paragraph with an empty cleaned text is skipped before the
  style is looked at), and by the block after the loop. At both, for every input \<open>xs\<close>
  processed so far, the entry made of the current section title, question title and
  stripped answer text is appended if and only if all three are non-empty, and nothing is
  appended otherwise. No entry of the returned list has an empty section, question or text.
\<close>

theorem saved_iff_all_filled:
  "(clean_line (par_text q) \<noteq> [] \<and> is_question_heading q \<longrightarrow>
      questions (paragraph_loop init_state (xs @ [q])) =
        (if section_title (paragraph_loop init_state xs) \<noteq> []
            \<and> question_title (paragraph_loop init_state xs) \<noteq> []
            \<and> strip (answer_text_so_far (paragraph_loop init_state xs)) \<noteq> []
         then questions (paragraph_loop init_state xs)
            @ [\<lparr>entry_text = strip (answer_text_so_far (paragraph_loop init_state xs)),
                entry_section = section_title (paragraph_loop init_state xs),
                entry_question = question_title (paragraph_loop init_state xs)\<rparr>]
         else questions (paragraph_loop init_state xs)))
   \<and> parse_paragraphs xs =
        (if section_title (paragraph_loop init_state xs) \<noteq> []
            \<and> question_title (paragraph_loop init_state xs) \<noteq> []
            \<and> strip (answer_text_so_far (paragraph_loop init_state xs)) \<noteq> []
         then questions (paragraph_loop init_state xs)
            @ [\<lparr>entry_text = strip (answer_text_so_far (paragraph_loop init_state xs)),
                entry_section = section_title (paragraph_loop init_state xs),
                entry_question = question_title (paragraph_loop init_state xs)\<rparr>]
         else questions (paragraph_loop init_state xs))
   \<and> (\<forall>e \<in> set (parse_paragraphs xs).
        entry_section e \<noteq> [] \<and> entry_question e \<noteq> [] \<and> entry_text e \<noteq> [])"
proof (intro conjI impI)
  assume "clean_line (par_text q) \<noteq> [] \<and> is_question_heading q"
  then show "questions (paragraph_loop init_state (xs @ [q])) =
        (if section_title (paragraph_loop init_state xs) \<noteq> []
            \<and> question_title (paragraph_loop init_state xs) \<noteq> []
            \<and> strip (answer_text_so_far (paragraph_loop init_state xs)) \<noteq> []
         then questions (paragraph_loop init_state xs)
            @ [\<lparr>entry_text = strip (answer_text_so_far (paragraph_loop init_state xs)),
                entry_section = section_title (paragraph_loop init_state xs),
                entry_question = question_title (paragraph_loop init_state xs)\<rparr>]
         else questions (paragraph_loop init_state xs))"
    by (simp add: loop_snoc loop_body_question save_guard_def new_entry_def)
next
  show "parse_paragraphs xs =
        (if section_title (paragraph_loop init_state xs) \<noteq> []
            \<and> question_title (paragraph_loop init_state xs) \<noteq> []
            \<and> strip (answer_text_so_far (paragraph_loop init_state xs)) \<noteq> []
         then questions (paragraph_loop init_state xs)
            @ [\<lparr>entry_text = strip (answer_text_so_far (paragraph_loop init_state xs)),
                entry_section = section_title (paragraph_loop init_state xs),
                entry_question = question_title (paragraph_loop init_state xs)\<rparr>]
         else questions (paragraph_loop init_state xs))"
    by (simp add: parse_paragraphs_def last_save_def save_guard_def new_entry_def)
next
  show "\<forall>e \<in> set (parse_paragraphs xs).
        entry_section e \<noteq> [] \<and> entry_question e \<noteq> [] \<and> entry_text e \<noteq> []"
    using filled_parse[of xs] by (simp add: list_all_iff entry_filled_def)
qed

theorem saved_iff_all_filled_witness:
  "clean_line (par_text (scenario_A ! 3)) \<noteq> [] \<and> is_question_heading (scenario_A ! 3)
   \<and> section_title (paragraph_loop init_state (take 3 scenario_A)) \<noteq> []
   \<and> question_title (paragraph_loop init_state (take 3 scenario_A)) \<noteq> []
   \<and> strip (answer_text_so_far (paragraph_loop init_state (take 3 scenario_A))) \<noteq> []
   \<and> questions (paragraph_loop init_state (take 3 scenario_A @ [scenario_A ! 3])) =
       [entry ''General'' ''Start date?'' ''Course starts Jan 15.'']
   \<and> parse_paragraphs (take 3 scenario_A) =
       [entry ''General'' ''Start date?'' ''Course starts Jan 15.'']
   \<and> entry ''General'' ''Start date?'' ''Course starts Jan 15.''
       \<in> set (parse_paragraphs (take 3 scenario_A))
   \<and> entry_text (entry ''General'' ''Start date?'' ''Course starts Jan 15.'') \<noteq> []"
proof -
  have h: "clean_line (par_text (scenario_A ! 3)) \<noteq> [] \<and> is_question_heading (scenario_A ! 3)"
    by (simp add: scenario_A_def heading_defs eval_defs)
  have st: "paragraph_loop init_state (take 3 scenario_A) =
     \<lparr>questions = [], section_title = u ''General'', question_title = u ''Start date?'',
      answer_text_so_far = NL # u ''Course starts Jan 15.''\<rparr>"
    by (simp add: scenario_A_def eval_defs)
  have ne: "u ''General'' \<noteq> [] \<and> u ''Start date?'' \<noteq> []
      \<and> strip (NL # u ''Course starts Jan 15.'') = u ''Course starts Jan 15.''
      \<and> u ''Course starts Jan 15.'' \<noteq> []"
    by (simp add: eval_defs)
  note t = saved_iff_all_filled[of "scenario_A ! 3" "take 3 scenario_A"]
  from t h st ne have q: "questions (paragraph_loop init_state (take 3 scenario_A @ [scenario_A ! 3])) =
       [entry ''General'' ''Start date?'' ''Course starts Jan 15.'']"
    by (simp add: entry_def)
  from t st ne have p: "parse_paragraphs (take 3 scenario_A) =
       [entry ''General'' ''Start date?'' ''Course starts Jan 15.'']"
    by (simp add: entry_def)
  from t p have "entry_text (entry ''General'' ''Start date?'' ''Course starts Jan 15.'') \<noteq> []"
    by simp
  with h st ne q p show ?thesis by simp
qed

subsection \<open>C4: re-expansion\<close>

text \<open>
  C4, counterexample. An entry takes the section title current when it is saved, and in the
  re-expanded sequence the section heading of the next entry comes before the question
  heading that saves the previous one. For the document with section \<open>A\<close>, question \<open>Q1\<close>,
  answer \<open>x\<close>, question \<open>Q2\<close>, section \<open>B\<close>, answer \<open>y\<close>, the entries are
  \<open>(A, Q1, x)\<close> and \<open>(B, Q2, y)\<close>; re-expanded and parsed again they are \<open>(B, Q1, x)\<close> and
  \<open>(B, Q2, y)\<close>.
\<close>

theorem re_expand_changes_section:
  "parse_paragraphs two_sections_doc = [entry ''A'' ''Q1'' ''x'', entry ''B'' ''Q2'' ''y'']
   \<and> parse_paragraphs (re_expand (u ''normal'') (parse_paragraphs two_sections_doc))
       = [entry ''B'' ''Q1'' ''x'', entry ''B'' ''Q2'' ''y'']
   \<and> parse_paragraphs (re_expand (u ''normal'') (parse_paragraphs two_sections_doc))
       \<noteq> parse_paragraphs two_sections_doc"
proof -
  have 1: "parse_paragraphs two_sections_doc = [entry ''A'' ''Q1'' ''x'', entry ''B'' ''Q2'' ''y'']"
    by (simp add: two_sections_doc_def entry_def eval_defs)
  have 2: "parse_paragraphs (re_expand (u ''normal'') [entry ''A'' ''Q1'' ''x'', entry ''B'' ''Q2'' ''y''])
       = [entry ''B'' ''Q1'' ''x'', entry ''B'' ''Q2'' ''y'']"
    by (simp add: re_expand_def entry_blocks_def entry_def eval_defs)
  have 3: "entry ''B'' ''Q1'' ''x'' \<noteq> entry ''A'' ''Q1'' ''x''"
    by (simp add: entry_def u_def)
  from 1 2 3 show ?thesis by simp
qed

text \<open>
  C4, as amended. For every paragraph sequence whose entries all carry the same section
  \<open>s\<close> and have fields that \<open>clean_line\<close> leaves unchanged, and every body style that is not
  one of the two heading styles, re-expanding the entries into section heading, question
  heading and body paragraph and parsing the result returns the same entries.
\<close>

theorem re_expand_same_section:
  assumes "lower body_style \<noteq> section_heading_style"
    and "lower body_style \<noteq> question_heading_style"
    and "\<forall>e \<in> set (parse_paragraphs ps). entry_section e = s
           \<and> clean_line (entry_section e) = entry_section e
           \<and> clean_line (entry_question e) = entry_question e
           \<and> clean_line (entry_text e) = entry_text e"
  shows "parse_paragraphs (re_expand body_style (parse_paragraphs ps)) = parse_paragraphs ps"
proof -
  have "list_all (reads_back s) (parse_paragraphs ps)"
    using assms(3) filled_parse[of ps] stripped_parse[of ps]
    by (auto simp: list_all_iff reads_back_def)
  with assms(1,2) show ?thesis by (rule expand_init)
qed

theorem re_expand_same_section_witness:
  "lower (u ''normal'') \<noteq> section_heading_style \<and> lower (u ''normal'') \<noteq> question_heading_style
   \<and> parse_paragraphs scenario_A =
       [entry ''General'' ''Start date?'' ''Course starts Jan 15.'',
        entry ''General'' ''Where is Slack?'' ''Link in announcements.'']
   \<and> parse_paragraphs (re_expand (u ''normal'') (parse_paragraphs scenario_A)) =
       parse_paragraphs scenario_A"
proof -
  have b: "lower (u ''normal'') \<noteq> section_heading_style"
    "lower (u ''normal'') \<noteq> question_heading_style"
    by (simp_all add: eval_defs)
  have p: "parse_paragraphs scenario_A =
       [entry ''General'' ''Start date?'' ''Course starts Jan 15.'',
        entry ''General'' ''Where is Slack?'' ''Link in announcements.'']"
    by (simp add: scenario_A_def entry_def eval_defs)
  have h: "\<forall>e \<in> set (parse_paragraphs scenario_A). entry_section e = u ''General''
           \<and> clean_line (entry_section e) = entry_section e
           \<and> clean_line (entry_question e) = entry_question e
           \<and> clean_line (entry_text e) = entry_text e"
    unfolding p by (simp add: entry_def eval_defs)
  from re_expand_same_section[OF b h] b p show ?thesis by simp
qed

subsection \<open>C5: a failing download in the course loop\<close>

text \<open>
  C5, counterexample. The claim says that the courses whose download succeeds are in the
  result even if an earlier download raised. With a download that raises for the first
  course of \<open>faq_documents\<close> and succeeds for the two others, the loop ends at the first
  course: \<open>documents\<close> is empty, although \<open>read_faq\<close> returns an entry for the second and
  the third course.
\<close>

theorem later_courses_not_processed:
  "course_loop first_course_fails [] faq_documents = ([], Some HTTPError)
   \<and> read_faq first_course_fails (snd (faq_documents ! 1)) =
       Inr [entry ''General'' ''Start date?'' ''Jan 15.'']
   \<and> read_faq first_course_fails (snd (faq_documents ! 2)) =
       Inr [entry ''General'' ''Start date?'' ''Jan 15.'']"
  by (simp add: faq_documents_def read_faq_def first_course_fails_def export_url_def
      one_question_doc_def entry_def eval_defs)

text \<open>
  C5, as amended. For every mapping: when every download succeeds, \<open>documents\<close> holds one
  bundle for each course, in the order of the mapping; when a download raises, the loop
  ends with that exception, and \<open>documents\<close> holds the bundles of the courses before the
  failing one and of no later course.
\<close>

theorem course_loop_stops_at_first_failure:
  "((\<forall>(c, f) \<in> set m. download (export_url f) = Inr (doc f)) \<longrightarrow>
      course_loop download [] m =
        (map (\<lambda>(c, f). \<lparr>course = c, documents = parse_paragraphs (doc f)\<rparr>) m, None))
   \<and> ((\<forall>(c, f) \<in> set pre. download (export_url f) = Inr (doc f))
        \<and> download (export_url file_id) = Inl err \<longrightarrow>
      course_loop download [] (pre @ (course_name, file_id) # post) =
        (map (\<lambda>(c, f). \<lparr>course = c, documents = parse_paragraphs (doc f)\<rparr>) pre, Some err))"
  using course_loop_all[of m download doc "[]"]
    course_loop_stop[of pre download doc file_id err "[]" course_name post]
  by simp

theorem course_loop_stops_at_first_failure_witness:
  "course_loop first_course_fails [] (tl faq_documents) =
       ([\<lparr>course = u ''machine-learning-zoomcamp'',
           documents = [entry ''General'' ''Start date?'' ''Jan 15.'']\<rparr>,
         \<lparr>course = u ''mlops-zoomcamp'',
           documents = [entry ''General'' ''Start date?'' ''Jan 15.'']\<rparr>], None)
   \<and> first_course_fails (export_url (snd (faq_documents ! 0))) = Inl HTTPError
   \<and> course_loop first_course_fails []
         ([faq_documents ! 1] @ (fst (faq_documents ! 0), snd (faq_documents ! 0))
            # [faq_documents ! 2]) =
       ([\<lparr>course = u ''machine-learning-zoomcamp'',
           documents = [entry ''General'' ''Start date?'' ''Jan 15.'']\<rparr>], Some HTTPError)"
proof -
  have ok: "\<forall>(c, f) \<in> set (tl faq_documents).
       first_course_fails (export_url f) = Inr ((\<lambda>f. one_question_doc) f)"
    by (simp add: faq_documents_def first_course_fails_def export_url_def u_def)
  have ok1: "\<forall>(c, f) \<in> set [faq_documents ! 1].
       first_course_fails (export_url f) = Inr ((\<lambda>f. one_question_doc) f)"
    by (simp add: faq_documents_def first_course_fails_def export_url_def u_def)
  have bad: "first_course_fails (export_url (snd (faq_documents ! 0))) = Inl HTTPError"
    by (simp add: faq_documents_def first_course_fails_def)
  have doc: "parse_paragraphs one_question_doc = [entry ''General'' ''Start date?'' ''Jan 15.'']"
    by (simp add: one_question_doc_def entry_def eval_defs)
  note t = course_loop_stops_at_first_failure[of "tl faq_documents" first_course_fails
      "\<lambda>f. one_question_doc" "[faq_documents ! 1]" "snd (faq_documents ! 0)" HTTPError
      "fst (faq_documents ! 0)" "[faq_documents ! 2]"]
  from t ok have 1: "course_loop first_course_fails [] (tl faq_documents) =
      (map (\<lambda>(c, f). \<lparr>course = c, documents = parse_paragraphs one_question_doc\<rparr>)
         (tl faq_documents), None)"
    by blast
  from t ok1 bad have 2: "course_loop first_course_fails []
         ([faq_documents ! 1] @ (fst (faq_documents ! 0), snd (faq_documents ! 0))
            # [faq_documents ! 2]) =
      (map (\<lambda>(c, f). \<lparr>course = c, documents = parse_paragraphs one_question_doc\<rparr>)
         [faq_documents ! 1], Some HTTPError)"
    by blast
  have 3: "map (\<lambda>(c, f). \<lparr>course = c, documents = parse_paragraphs one_question_doc\<rparr>)
         (tl faq_documents) =
       [\<lparr>course = u ''machine-learning-zoomcamp'',
           documents = [entry ''General'' ''Start date?'' ''Jan 15.'']\<rparr>,
         \<lparr>course = u ''mlops-zoomcamp'',
           documents = [entry ''General'' ''Start date?'' ''Jan 15.'']\<rparr>]"
    by (simp add: faq_documents_def doc)
  have 4: "map (\<lambda>(c, f). \<lparr>course = c, documents = parse_paragraphs one_question_doc\<rparr>)
         [faq_documents ! 1] =
       [\<lparr>course = u ''machine-learning-zoomcamp'',
           documents = [entry ''General'' ''Start date?'' ''Jan 15.'']\<rparr>]"
    by (simp add: faq_documents_def doc)
  from bad 1 2 show ?thesis unfolding 3 4 by blast
qed

subsection \<open>C6: no more entries than question headings\<close>

text \<open>
  C6. For every paragraph sequence, the number of entries returned is at most the number of
  paragraphs whose lowered style is the question heading style.
\<close>

theorem entries_le_question_headings:
  "length (parse_paragraphs ps) \<le> length (filter is_question_heading ps)"
proof -
  have "length (questions init_state) + (if question_title init_state = [] then 0 else 1) \<le> 0"
    by (simp add: init_state_def)
  from count_loop[OF this, of ps] length_last_save[of "paragraph_loop init_state ps"]
  show ?thesis by (simp add: parse_paragraphs_def)
qed

subsection \<open>C7: text normalization\<close>

text \<open>
  C7. The claim: for every line, the cleaned text neither begins nor ends with whitespace
  and does not begin with \<open>U+FEFF\<close>; the docstring of \<open>clean_line\<close> says the same of
  whitespace (``Strip whitespace and BOM (Byte Order Mark) characters from the line'').
  The code strips the whitespace first and the byte-order marks after it, and does not
  strip whitespace again: for the line \<open>U+FEFF\<close>, space, \<open>x\<close> it returns space, \<open>x\<close>,
  which begins with whitespace. The example of the claim, \<open>U+FEFF\<close> followed by
  \<open>When does it start?\<close>, is cleaned to \<open>When does it start?\<close>.
\<close>

theorem clean_line_bom_then_space:
  "clean_line (BOM # u '' x'') = u '' x''
   \<and> py_isspace (hd (clean_line (BOM # u '' x'')))
   \<and> clean_line (BOM # u ''When does it start?'') = u ''When does it start?''"
  by (simp add: eval_defs)

subsection \<open>C8: paragraphs with an empty cleaned text\<close>

text \<open>
  C8. A paragraph whose cleaned text is empty changes nothing: for every paragraph sequence
  and every such paragraph in it, parsing the sequence without the paragraph returns the
  same entries as parsing the whole sequence.
\<close>

theorem blank_paragraph_no_op:
  "clean_line (par_text p) = [] \<Longrightarrow> parse_paragraphs (xs @ p # ys) = parse_paragraphs (xs @ ys)"
  by (simp add: parse_paragraphs_def loop_append loop_body_blank)

theorem blank_paragraph_no_op_witness:
  "clean_line (par_text (para ''Heading 2'' ''   '')) = []
   \<and> parse_paragraphs ([para ''Heading 1'' ''S'', para ''Heading 2'' ''Q'', para ''normal'' ''A'']
        @ para ''Heading 2'' ''   '' # [para ''normal'' ''B''])
     = parse_paragraphs ([para ''Heading 1'' ''S'', para ''Heading 2'' ''Q'', para ''normal'' ''A'']
        @ [para ''normal'' ''B''])
   \<and> parse_paragraphs ([para ''Heading 1'' ''S'', para ''Heading 2'' ''Q'', para ''normal'' ''A'']
        @ [para ''normal'' ''B''])
     = [\<lparr>entry_text = u ''A'' @ NL # u ''B'', entry_section = u ''S'', entry_question = u ''Q''\<rparr>]"
proof -
  have h: "clean_line (par_text (para ''Heading 2'' ''   '')) = []"
    by (simp add: eval_defs)
  have v: "parse_paragraphs ([para ''Heading 1'' ''S'', para ''Heading 2'' ''Q'', para ''normal'' ''A'']
        @ [para ''normal'' ''B''])
     = [\<lparr>entry_text = u ''A'' @ NL # u ''B'', entry_section = u ''S'', entry_question = u ''Q''\<rparr>]"
    by (simp add: eval_defs)
  from blank_paragraph_no_op[OF h] h v show ?thesis by blast
qed

subsection \<open>C9: the titles stay set\<close>

text \<open>
  C9. An iteration leaves \<open>section_title\<close> and \<open>question_title\<close> as they are or assigns a
  non-empty cleaned text, so a title that is non-empty after a prefix \<open>xs\<close> of the input is
  non-empty after every longer prefix \<open>xs @ ys\<close>. Consequently, once an entry has been
  saved, every later paragraph that reaches the question heading branch (lowered style the
  question heading style, cleaned text not empty) while the stripped answer text is not
  empty saves an entry.
\<close>

theorem titles_stay_set:
  "(section_title (paragraph_loop init_state xs) \<noteq> [] \<longrightarrow>
      section_title (paragraph_loop init_state (xs @ ys)) \<noteq> [])
   \<and> (question_title (paragraph_loop init_state xs) \<noteq> [] \<longrightarrow>
      question_title (paragraph_loop init_state (xs @ ys)) \<noteq> [])
   \<and> (section_title (loop_body st p) = section_title st
      \<or> section_title (loop_body st p) = clean_line (par_text p) \<and> clean_line (par_text p) \<noteq> [])
   \<and> (question_title (loop_body st p) = question_title st
      \<or> question_title (loop_body st p) = clean_line (par_text p) \<and> clean_line (par_text p) \<noteq> [])
   \<and> (questions (paragraph_loop init_state xs) \<noteq> []
        \<and> clean_line (par_text q) \<noteq> [] \<and> is_question_heading q
        \<and> strip (answer_text_so_far (paragraph_loop init_state (xs @ ys))) \<noteq> [] \<longrightarrow>
      questions (paragraph_loop init_state (xs @ ys @ [q])) =
        questions (paragraph_loop init_state (xs @ ys))
          @ [new_entry (paragraph_loop init_state (xs @ ys))])"
proof (intro conjI impI)
  assume "section_title (paragraph_loop init_state xs) \<noteq> []"
  then show "section_title (paragraph_loop init_state (xs @ ys)) \<noteq> []"
    by (simp add: loop_append section_title_loop)
next
  assume "question_title (paragraph_loop init_state xs) \<noteq> []"
  then show "question_title (paragraph_loop init_state (xs @ ys)) \<noteq> []"
    by (simp add: loop_append question_title_loop)
next
  show "section_title (loop_body st p) = section_title st
      \<or> section_title (loop_body st p) = clean_line (par_text p) \<and> clean_line (par_text p) \<noteq> []"
    using titles_assigned[of st p] by blast
  show "question_title (loop_body st p) = question_title st
      \<or> question_title (loop_body st p) = clean_line (par_text p) \<and> clean_line (par_text p) \<noteq> []"
    using titles_assigned[of st p] by blast
next
  assume a: "questions (paragraph_loop init_state xs) \<noteq> []
        \<and> clean_line (par_text q) \<noteq> [] \<and> is_question_heading q
        \<and> strip (answer_text_so_far (paragraph_loop init_state (xs @ ys))) \<noteq> []"
  let ?st = "paragraph_loop init_state (xs @ ys)"
  obtain zs where "questions ?st = questions (paragraph_loop init_state xs) @ zs"
    using questions_loop_grow[of "paragraph_loop init_state xs" ys] by (auto simp: loop_append)
  with a have "questions ?st \<noteq> []" by simp
  moreover have "titled ?st" by (intro titled_loop titled_init)
  ultimately have "save_guard ?st" using a by (simp add: titled_def save_guard_def)
  moreover have "paragraph_loop init_state (xs @ ys @ [q]) = loop_body ?st q"
    using loop_snoc[of init_state "xs @ ys" q] by simp
  ultimately show "questions (paragraph_loop init_state (xs @ ys @ [q])) =
        questions ?st @ [new_entry ?st]"
    using a by (simp add: loop_body_question)
qed

theorem titles_stay_set_witness:
  "questions (paragraph_loop init_state (take 4 scenario_A)) = [entry ''General'' ''Start date?'' ''Course starts Jan 15.'']
   \<and> questions (paragraph_loop init_state (take 4 scenario_A @ drop 4 scenario_A @ [para ''Heading 2'' ''Q3''])) =
     [entry ''General'' ''Start date?'' ''Course starts Jan 15.'',
      entry ''General'' ''Where is Slack?'' ''Link in announcements.'']"
proof -
  have 1: "questions (paragraph_loop init_state (take 4 scenario_A)) = [entry ''General'' ''Start date?'' ''Course starts Jan 15.'']"
    by (simp add: scenario_A_def entry_def eval_defs)
  have 2: "clean_line (par_text (para ''Heading 2'' ''Q3'')) \<noteq> [] \<and> is_question_heading (para ''Heading 2'' ''Q3'')"
    by (simp add: heading_defs eval_defs)
  have 3: "paragraph_loop init_state (take 4 scenario_A @ drop 4 scenario_A) =
     \<lparr>questions = [entry ''General'' ''Start date?'' ''Course starts Jan 15.''],
      section_title = u ''General'', question_title = u ''Where is Slack?'',
      answer_text_so_far = NL # u ''Link in announcements.''\<rparr>"
    by (simp add: scenario_A_def entry_def eval_defs)
  have 4: "strip (NL # u ''Link in announcements.'') = u ''Link in announcements.''"
    by (simp add: eval_defs)
  have 5: "u ''Link in announcements.'' \<noteq> []"
    by (simp add: u_def)
  from titles_stay_set[of "take 4 scenario_A" "drop 4 scenario_A" init_state
      "para ''Heading 2'' ''Q3''" "para ''Heading 2'' ''Q3''"] 1 2 3 4 5
  show ?thesis by (simp add: new_entry_def entry_def)
qed

subsection \<open>C10: order of the entries\<close>

text \<open>
  C10. The returned list is the concatenation, in the order of the input, of what each
  paragraph saves when the loop meets it, followed by what the block after the loop saves.
  Each of these is at most one entry, and only a question heading saves one. The result is
  a function of the paragraph sequence alone: the state starts from \<open>init_state\<close> in every
  run, so the same sequence gives the same list.
\<close>

theorem entries_in_paragraph_order:
  "parse_paragraphs ps =
     concat (map (\<lambda>i. saved_by (paragraph_loop init_state (take i ps)) (ps ! i)) [0..<length ps])
       @ saved_at_end (paragraph_loop init_state ps)
   \<and> length (saved_by st p) \<le> 1
   \<and> (saved_by st p \<noteq> [] \<longrightarrow> is_question_heading p)
   \<and> length (saved_at_end st) \<le> 1
   \<and> (\<forall>ps'. ps' = ps \<longrightarrow> parse_paragraphs ps' = parse_paragraphs ps)"
  using questions_loop_concat[of init_state ps]
  by (simp add: parse_paragraphs_def last_save_questions init_state_def saved_by_cases saved_at_end_cases)

theorem entries_in_paragraph_order_witness:
  "saved_by (paragraph_loop init_state (take 3 scenario_A)) (scenario_A ! 3) =
     [entry ''General'' ''Start date?'' ''Course starts Jan 15.'']
   \<and> saved_at_end (paragraph_loop init_state scenario_A) =
     [entry ''General'' ''Where is Slack?'' ''Link in announcements.'']
   \<and> is_question_heading (scenario_A ! 3)
   \<and> parse_paragraphs scenario_A =
     [entry ''General'' ''Start date?'' ''Course starts Jan 15.'',
      entry ''General'' ''Where is Slack?'' ''Link in announcements.'']"
proof -
  have 1: "saved_by (paragraph_loop init_state (take 3 scenario_A)) (scenario_A ! 3) =
     [entry ''General'' ''Start date?'' ''Course starts Jan 15.'']"
    by (simp add: scenario_A_def entry_def saved_by_def eval_defs)
  then have 2: "is_question_heading (scenario_A ! 3)"
    using entries_in_paragraph_order[of scenario_A "paragraph_loop init_state (take 3 scenario_A)" "scenario_A ! 3"]
    by simp
  have 3: "parse_paragraphs scenario_A =
     [entry ''General'' ''Start date?'' ''Course starts Jan 15.'',
      entry ''General'' ''Where is Slack?'' ''Link in announcements.'']"
    by (simp add: scenario_A_def entry_def eval_defs)
  have 4: "saved_at_end (paragraph_loop init_state scenario_A) =
     [entry ''General'' ''Where is Slack?'' ''Link in announcements.'']"
    by (simp add: scenario_A_def entry_def saved_at_end_def eval_defs)
  from 1 2 3 4 show ?thesis by simp
qed

end
